theory Spec2Isabelle
  imports Complex_Main "HOL-Library.Sublist" "HOL-Library.AList"
begin

section \<open>Balance assertions of a ledger: \<open>beancount/ops/balance.py\<close>\<close>

text \<open>
  The development embeds the function \<open>check\<close> of \<open>beancount/ops/balance.py\<close>.
  Python's \<open>Decimal\<close> numbers are taken as exact rationals (the rounding of the
  decimal context to 28 significant digits is left out), strings are character lists,
  named tuples are datatypes with one constructor, and the tree of accounts that the
  source mutates in place is passed along and returned updated.
\<close>

subsection \<open>Amounts, positions and inventories\<close>

text \<open>
  Modelled from the spec: \<open>beancount.core.amount\<close> (\<open>Amount\<close>, \<open>amount_sub\<close>, the
  truth value of an amount) is not among the sources. An amount is a signed decimal
  number tagged with a currency; the difference of two amounts is the difference of
  their numbers; an amount is true when its number is not zero.
\<close>

datatype amount = Amount (number: rat) (currency: string)

definition amount_sub :: "amount \<Rightarrow> amount \<Rightarrow> amount" where
  "amount_sub amount1 amount2 = Amount (number amount1 - number amount2) (currency amount1)"

definition amount_bool :: "amount \<Rightarrow> bool" where
  "amount_bool a = (number a \<noteq> 0)"

text \<open>
  Modelled from the spec: \<open>beancount.core.inventory\<close> and the positions it holds are
  not among the sources. A position is a number tagged with a lot, that is a currency
  and an optional cost key, which is opaque here. An inventory maps lots to accumulated
  numbers; it is kept as the list of its positions, one for each lot. Adding a position
  combines it into the position of the same lot and may go negative (the source passes
  \<open>True\<close> for that permission at its only call). \<open>get_amount\<close> is the accumulated
  amount in one currency, zero when the currency is absent. \<open>add_inventory\<close> stands
  for \<open>+=\<close> on inventories.
\<close>

datatype lot = Lot (lot_currency: string) (lot_cost: "amount option")

datatype position = Position (lot: lot) (units: rat)

type_synonym Inventory = "position list"

fun add_position :: "Inventory \<Rightarrow> position \<Rightarrow> Inventory" where
  "add_position [] new_position = [new_position]"
| "add_position (p # ps) new_position =
     (if lot p = lot new_position
      then Position (lot p) (units p + units new_position) # ps
      else p # add_position ps new_position)"

definition get_amount :: "Inventory \<Rightarrow> string \<Rightarrow> amount" where
  "get_amount inventory cur =
     Amount (sum_list (map units (filter (\<lambda>p. lot_currency (lot p) = cur) inventory))) cur"

definition add_inventory :: "Inventory \<Rightarrow> Inventory \<Rightarrow> Inventory" where
  "add_inventory inventory other = foldl add_position inventory other"

subsection \<open>Account names\<close>

text \<open>
  Modelled from the spec: the module of account names is not among the sources. An
  account name is a string whose components are separated by a colon. \<open>split_on\<close> is
  Python's \<open>str.split\<close> with a separator: it always returns at least one component.
\<close>

fun split_on :: "char \<Rightarrow> string \<Rightarrow> string list" where
  "split_on sep [] = [[]]"
| "split_on sep (c # cs) =
     (if c = sep then [] # split_on sep cs
      else (case split_on sep cs of
              [] \<Rightarrow> [[c]]
            | w # ws \<Rightarrow> (c # w) # ws))"

definition account_split :: "string \<Rightarrow> string list" where
  "account_split account_name = split_on CHR '':'' account_name"

fun account_join :: "string list \<Rightarrow> string" where
  "account_join [] = []"
| "account_join [c] = c"
| "account_join (c # cs) = c @ CHR '':'' # account_join cs"

subsection \<open>The tree of realized accounts\<close>

text \<open>
  Modelled from the spec: \<open>beancount.core.realization\<close> (\<open>RealAccount\<close>, \<open>get\<close>,
  \<open>get_or_create\<close>, \<open>iter_children\<close>) is not among the sources. A node owns its
  name, an inventory (its own balance, without its children) and its children, keyed by
  their component of the name. \<open>get\<close> fetches the node at a name, if there is one;
  \<open>get_or_create\<close> fetches it and creates it and every missing ancestor first;
  \<open>iter_children\<close> yields a node and all of its descendants.
\<close>

datatype real_account =
  RealAccount (fullname: string) (balance: Inventory) (children: "(string \<times> real_account) list")

fun get_path :: "real_account \<Rightarrow> string list \<Rightarrow> real_account option" where
  "get_path real_account [] = Some real_account"
| "get_path real_account (component # components) =
     (case map_of (children real_account) component of
        None \<Rightarrow> None
      | Some real_child \<Rightarrow> get_path real_child components)"

definition get :: "real_account \<Rightarrow> string \<Rightarrow> real_account option" where
  "get real_account account_name = get_path real_account (account_split account_name)"

fun create_path :: "string list \<Rightarrow> real_account \<Rightarrow> string list \<Rightarrow> real_account" where
  "create_path path real_account [] = real_account"
| "create_path path real_account (component # components) =
     (let real_child =
            (case map_of (children real_account) component of
               None \<Rightarrow> RealAccount (account_join (path @ [component])) [] []
             | Some c \<Rightarrow> c)
      in RealAccount (fullname real_account) (balance real_account)
           (AList.update component
              (create_path (path @ [component]) real_child components)
              (children real_account)))"

definition get_or_create :: "real_account \<Rightarrow> string \<Rightarrow> real_account" where
  "get_or_create real_account account_name =
     create_path [] real_account (account_split account_name)"

fun iter_children :: "real_account \<Rightarrow> real_account list" where
  "iter_children (RealAccount name bal chs) =
     RealAccount name bal chs # concat (map (\<lambda>kc. iter_children (snd kc)) chs)"

text \<open>
  The source changes the inventory of a node in place
  (\<open>real_account.balance.add_position\<close>); the node is shared with the tree, so the tree
  with the node at that path replaced is returned.
\<close>

fun update_balance :: "real_account \<Rightarrow> string list \<Rightarrow> (Inventory \<Rightarrow> Inventory) \<Rightarrow> real_account" where
  "update_balance real_account [] f =
     RealAccount (fullname real_account) (f (balance real_account)) (children real_account)"
| "update_balance real_account (component # components) f =
     (case map_of (children real_account) component of
        None \<Rightarrow> real_account
      | Some real_child \<Rightarrow>
          RealAccount (fullname real_account) (balance real_account)
            (AList.update component (update_balance real_child components f)
               (children real_account)))"

subsection \<open>Entries\<close>

text \<open>
  Modelled from the spec: \<open>beancount.core.data\<close> and \<open>beancount.core.getters\<close> are
  not among the sources. A transaction has a location, a date and its postings, each an
  account with a position (the fields that the pass does not read are left out); a balance assertion has a location, a date, an account, the
  expected amount and the optional difference; every other directive is opaque to the
  pass. \<open>get_accounts\<close> gathers the accounts of all postings and assertions, here in
  the order of the entries.
\<close>

type_synonym fileloc = "string \<times> nat"

datatype posting = Posting (posting_account: string) (posting_position: position)

datatype entry =
  Transaction fileloc nat "posting list"
| Balance fileloc nat string amount "amount option"
| Other fileloc nat

fun entry_accounts :: "entry \<Rightarrow> string list" where
  "entry_accounts (Transaction loc d postings) = map posting_account postings"
| "entry_accounts (Balance loc d account expected diff) = [account]"
| "entry_accounts (Other loc d) = []"

definition get_accounts :: "entry list \<Rightarrow> string list" where
  "get_accounts entries = concat (map entry_accounts entries)"

subsection \<open>The pass\<close>

text \<open>
  The message of an error is kept as the arguments of the format string
  \<open>"Balance failed for '{}': expected {} != accumulated {} ({} {})"\<close>, in the order in
  which the source passes them.
\<close>

datatype message =
  Message (msg_account: string) (msg_arg1: amount) (msg_arg2: amount) (msg_diff: amount)
    (msg_direction: string)

datatype BalanceError = BalanceError (err_fileloc: fileloc) (err_message: message) (err_entry: entry)

datatype error = AssertionError string

definition CHECK_PRECISION :: rat where
  "CHECK_PRECISION = 15 / 1000"

fun asserted_of :: "entry \<Rightarrow> string list" where
  "asserted_of (Balance loc d account expected diff) = [account]"
| "asserted_of e = []"

definition asserted_accounts :: "entry list \<Rightarrow> string list" where
  "asserted_accounts entries = concat (map asserted_of entries)"

text \<open>Lines 57 to 61: the accounts for which a node is created before the replay.\<close>

definition is_selected :: "string list \<Rightarrow> string \<Rightarrow> bool" where
  "is_selected asserted account =
     (account \<in> set asserted \<or> list_ex (\<lambda>asserted_account. prefix asserted_account account) asserted)"

definition selection :: "entry list \<Rightarrow> real_account" where
  "selection entries =
     foldl (\<lambda>real_root account.
              if is_selected (asserted_accounts entries) account
              then get_or_create real_root account else real_root)
       (RealAccount [] [] []) (get_accounts entries)"

text \<open>Lines 66 to 73: the postings of one transaction.\<close>

definition add_posting :: "real_account \<Rightarrow> posting \<Rightarrow> real_account" where
  "add_posting real_root p =
     (case get real_root (posting_account p) of
        None \<Rightarrow> real_root
      | Some real_account \<Rightarrow>
          update_balance real_root (account_split (posting_account p))
            (\<lambda>b. add_position b (posting_position p)))"

definition subtree_balance :: "real_account \<Rightarrow> Inventory" where
  "subtree_balance real_account =
     foldl add_inventory [] (map balance (iter_children real_account))"

definition direction :: "amount \<Rightarrow> string" where
  "direction diff_amount = (if amount_bool diff_amount then ''too much'' else ''too little'')"

text \<open>
  Lines 64 to 112: the body of the loop, for one entry. It returns the tree (changed by
  the postings of a transaction), the entry that line 112 appends to \<open>new_entries\<close>
  and the errors that line 95 appends to \<open>check_errors\<close> (none or one). The failed
  \<open>assert\<close> of line 80 is the error \<open>AssertionError\<close>.
\<close>

fun check_entry ::
  "real_account \<Rightarrow> entry \<Rightarrow> error + (real_account \<times> entry \<times> BalanceError list)" where
  "check_entry real_root (Transaction loc d postings) =
     Inr (foldl add_posting real_root postings, Transaction loc d postings, [])"
| "check_entry real_root (Balance loc d account expected_amount diff) =
     (case get real_root account of
        None \<Rightarrow> Inl (AssertionError (''Missing '' @ account))
      | Some real_account \<Rightarrow>
          (let balance_amount = get_amount (subtree_balance real_account) (currency expected_amount);
               diff_amount = amount_sub balance_amount expected_amount
           in if \<bar>number diff_amount\<bar> > CHECK_PRECISION
              then Inr (real_root,
                     Balance loc d account expected_amount (Some diff_amount),
                     [BalanceError loc
                        (Message account balance_amount expected_amount diff_amount
                           (direction diff_amount))
                        (Balance loc d account expected_amount diff)])
              else Inr (real_root, Balance loc d account expected_amount diff, [])))"
| "check_entry real_root (Other loc d) = Inr (real_root, Other loc d, [])"

text \<open>Line 63: the loop over the entries, with the three values it updates.\<close>

fun check_loop ::
  "real_account \<Rightarrow> entry list \<Rightarrow> BalanceError list \<Rightarrow> entry list
     \<Rightarrow> error + (entry list \<times> BalanceError list)" where
  "check_loop real_root new_entries check_errors [] = Inr (new_entries, check_errors)"
| "check_loop real_root new_entries check_errors (entry # entries) =
     (case check_entry real_root entry of
        Inl failure \<Rightarrow> Inl failure
      | Inr (real_root', entry', errors) \<Rightarrow>
          check_loop real_root' (new_entries @ [entry']) (check_errors @ errors) entries)"

definition check ::
  "entry list \<Rightarrow> (string \<rightharpoonup> string) \<Rightarrow> error + (entry list \<times> BalanceError list)" where
  "check entries unused_options_map = check_loop (selection entries) [] [] entries"

section \<open>Notions of the specification\<close>

text \<open>
  The sum, over a node and all of its descendants, of the units that the node's own
  inventory holds in one currency.
\<close>

definition subtree_total :: "real_account \<Rightarrow> string \<Rightarrow> rat" where
  "subtree_total real_account cur =
     (\<Sum>n\<leftarrow>iter_children real_account.
        \<Sum>p\<leftarrow>filter (\<lambda>p. lot_currency (lot p) = cur) (balance n). units p)"

text \<open>
  What the pass may put at the position of an entry: the entry itself and no error, or,
  for a balance assertion, a copy with the difference filled in and one error that
  refers to the entry.
\<close>

definition entry_outcome :: "entry \<Rightarrow> entry \<times> BalanceError list \<Rightarrow> bool" where
  "entry_outcome entry out =
     (out = (entry, []) \<or>
      (\<exists>loc d account expected diff diff_amount msg.
          entry = Balance loc d account expected diff \<and>
          out = (Balance loc d account expected (Some diff_amount),
                 [BalanceError loc msg entry])))"

text \<open>
  An account is an ancestor of another when the other starts with it followed by the
  delimiter. An account is tracked when an assertion names it, when it is an ancestor
  of an account that an assertion names, or when it appears in the ledger and is a
  descendant of an account that an assertion names.
\<close>

definition is_ancestor :: "string \<Rightarrow> string \<Rightarrow> bool" where
  "is_ancestor p q = prefix (p @ '':'') q"

definition tracked :: "entry list \<Rightarrow> string \<Rightarrow> bool" where
  "tracked entries a =
     (a \<in> set (asserted_accounts entries)
      \<or> list_ex (\<lambda>s. is_ancestor a s) (asserted_accounts entries)
      \<or> (a \<in> set (get_accounts entries)
          \<and> list_ex (\<lambda>s. is_ancestor s a) (asserted_accounts entries)))"

text \<open>
  The ledgers in which every account that starts with an asserted account is that
  account or one of its descendants.
\<close>

definition well_delimited :: "entry list \<Rightarrow> bool" where
  "well_delimited entries =
     list_all (\<lambda>l. list_all (\<lambda>s. prefix s l \<longrightarrow> l = s \<or> is_ancestor s l)
                  (asserted_accounts entries))
       (get_accounts entries)"

text \<open>The tree that the loop holds after it has run over some entries.\<close>

fun tree_after :: "real_account \<Rightarrow> entry list \<Rightarrow> real_account" where
  "tree_after real_root [] = real_root"
| "tree_after real_root (entry # entries) =
     (case check_entry real_root entry of
        Inl failure \<Rightarrow> real_root
      | Inr (real_root', entry', errors) \<Rightarrow> tree_after real_root' entries)"

subsection \<open>Ledgers and trees of the examples\<close>

definition bank_entries :: "entry list" where
  "bank_entries =
     [Transaction (''ledger'', 1) 1
        [Posting ''Assets:Bank:Checking'' (Position (Lot ''CUR'' None) 10),
         Posting ''Assets:Bank:Savings'' (Position (Lot ''CUR'' None) 5)],
      Balance (''ledger'', 2) 2 ''Assets:Bank'' (Amount 15 ''CUR'') None,
      Balance (''ledger'', 3) 3 ''Assets:Bank:Checking'' (Amount 15 ''CUR'') None]"

definition cash_entries :: "entry list" where
  "cash_entries =
     [Transaction (''ledger'', 1) 1 [Posting ''Assets:Cash'' (Position (Lot ''USD'' None) 100)],
      Balance (''ledger'', 2) 2 ''Assets:Cash'' (Amount 100 ''USD'') None,
      Balance (''ledger'', 3) 3 ''Assets:Cash'' (Amount 90 ''USD'') None]"

definition bank_tree :: real_account where
  "bank_tree =
     RealAccount [] []
       [(''Assets'', RealAccount ''Assets'' []
          [(''Bank'', RealAccount ''Assets:Bank'' []
             [(''Checking'', RealAccount ''Assets:Bank:Checking''
                 [Position (Lot ''CUR'' None) 10] []),
              (''Savings'', RealAccount ''Assets:Bank:Savings''
                 [Position (Lot ''CUR'' None) 5, Position (Lot ''EUR'' None) 7] [])])])]"


definition cash_node :: real_account where
  "cash_node = RealAccount ''Assets:Cash'' [Position (Lot ''USD'' None) 100] []"

definition cash_tree :: real_account where
  "cash_tree = RealAccount [] [] [(''Assets'', RealAccount ''Assets'' [] [(''Cash'', cash_node)])]"

definition deep_entries :: "entry list" where
  "deep_entries =
     [Balance (''ledger'', 1) 1 ''Assets:Bank'' (Amount 0 ''USD'') None,
      Transaction (''ledger'', 2) 2
        [Posting ''Assets:Bank:Checking:Joint'' (Position (Lot ''USD'' None) 1),
         Posting ''Income:Gifts'' (Position (Lot ''USD'' None) (- 1))]]"

definition sibling_entries :: "entry list" where
  "sibling_entries =
     [Transaction (''ledger'', 1) 1
        [Posting ''Assets:CashReserve'' (Position (Lot ''USD'' None) 5),
         Posting ''Income:Gifts'' (Position (Lot ''USD'' None) (- 5))],
      Balance (''ledger'', 2) 2 ''Assets:Cash'' (Amount 0 ''USD'') None]"

definition passing_entries :: "entry list" where
  "passing_entries =
     [Transaction (''ledger'', 1) 1 [Posting ''Assets:Cash'' (Position (Lot ''USD'' None) 100)],
      Balance (''ledger'', 2) 2 ''Assets:Cash'' (Amount 100 ''USD'') None]"

definition bank_node :: real_account where
  "bank_node =
     RealAccount ''Assets:Bank'' []
       [(''Checking'', RealAccount ''Assets:Bank:Checking''
           [Position (Lot ''CUR'' None) 10] []),
        (''Savings'', RealAccount ''Assets:Bank:Savings''
           [Position (Lot ''CUR'' None) 5, Position (Lot ''EUR'' None) 7] [])]"

definition bank_node_plain :: real_account where
  "bank_node_plain =
     RealAccount ''Assets:Bank'' []
       [(''Checking'', RealAccount ''Assets:Bank:Checking''
           [Position (Lot ''CUR'' None) 10] []),
        (''Savings'', RealAccount ''Assets:Bank:Savings''
           [Position (Lot ''CUR'' None) 5] [])]"

text \<open>What holds of every error that the pass emits.\<close>

definition emitted_ok :: "BalanceError \<Rightarrow> bool" where
  "emitted_ok err =
     (msg_direction (err_message err) = ''too much''
      \<and> msg_direction (err_message err) = direction (msg_diff (err_message err))
      \<and> \<bar>number (msg_diff (err_message err))\<bar> > CHECK_PRECISION)"

section \<open>Lemmas\<close>

subsection \<open>Inventories\<close>

lemma get_amount_add_position:
  "number (get_amount (add_position inventory p) cur) =
     number (get_amount inventory cur) + (if lot_currency (lot p) = cur then units p else 0)"
  by (induction inventory) (auto simp: get_amount_def)

lemma currency_get_amount [simp]: "currency (get_amount inventory cur) = cur"
  by (simp add: get_amount_def)

lemma get_amount_add_inventory:
  "number (get_amount (add_inventory inventory other) cur) =
     number (get_amount inventory cur) + number (get_amount other cur)"
  unfolding add_inventory_def
proof (induction other arbitrary: inventory)
  case Nil
  show ?case by (simp add: get_amount_def)
next
  case (Cons p ps)
  show ?case
    by (simp add: Cons.IH get_amount_add_position) (simp add: get_amount_def)
qed

lemma get_amount_foldl_add_inventory:
  "number (get_amount (foldl add_inventory inventory invs) cur) =
     number (get_amount inventory cur) + (\<Sum>i\<leftarrow>invs. number (get_amount i cur))"
  by (induction invs arbitrary: inventory) (simp_all add: get_amount_add_inventory)

lemma get_amount_subtree_balance:
  "get_amount (subtree_balance real_account) cur =
     Amount (\<Sum>n\<leftarrow>iter_children real_account. number (get_amount (balance n) cur)) cur"
proof -
  have "number (get_amount (subtree_balance real_account) cur) =
      (\<Sum>n\<leftarrow>iter_children real_account. number (get_amount (balance n) cur))"
    unfolding subtree_balance_def
    by (simp add: get_amount_foldl_add_inventory comp_def) (simp add: get_amount_def)
  then show ?thesis
    by (cases "get_amount (subtree_balance real_account) cur") (simp add: get_amount_def)
qed



subsection \<open>Account names and the tree\<close>

lemma split_on_not_Nil [simp]: "split_on sep s \<noteq> []"
  by (induction s) (auto split: list.splits)

lemma split_on_append_sep:
  "split_on sep (a @ sep # r) = split_on sep a @ split_on sep r"
  by (induction a) (auto split: list.splits)

lemma account_join_Cons_Cons: "account_join ((c # w) # ws) = c # account_join (w # ws)"
  by (cases ws) simp_all

lemma account_join_split: "account_join (split_on CHR '':'' a) = a"
proof (induction a)
  case Nil
  show ?case by simp
next
  case (Cons c cs)
  obtain w ws where ws: "split_on CHR '':'' cs = w # ws"
    by (cases "split_on CHR '':'' cs") simp_all
  with Cons show ?case
    by (auto simp: account_join_Cons_Cons)
qed

lemma account_join_append:
  "xs \<noteq> [] \<Longrightarrow> ys \<noteq> [] \<Longrightarrow> account_join (xs @ ys) = account_join xs @ CHR '':'' # account_join ys"
proof (induction xs rule: account_join.induct)
  case 1
  then show ?case by simp
next
  case (2 c)
  then show ?case by (cases ys) simp_all
next
  case (3 c v va)
  then show ?case by simp
qed

lemma prefix_account_split:
  "prefix (account_split a) (account_split l) \<longleftrightarrow> a = l \<or> prefix (a @ '':'') l"
proof
  assume "prefix (account_split a) (account_split l)"
  then obtain rest where rest: "account_split l = account_split a @ rest"
    by (auto simp: prefix_def)
  show "a = l \<or> prefix (a @ '':'') l"
  proof (cases "rest = []")
    case True
    with rest have "account_join (account_split l) = account_join (account_split a)" by simp
    then show ?thesis by (simp add: account_split_def account_join_split)
  next
    case False
    have "l = account_join (account_split a @ rest)"
      using rest by (metis account_split_def account_join_split)
    also have "\<dots> = a @ CHR '':'' # account_join rest"
      using False by (simp add: account_join_append account_split_def account_join_split)
    finally show ?thesis by (simp add: prefix_def)
  qed
next
  assume "a = l \<or> prefix (a @ '':'') l"
  then show "prefix (account_split a) (account_split l)"
  proof
    assume "a = l" then show ?thesis by simp
  next
    assume "prefix (a @ '':'') l"
    then obtain r where "l = a @ CHR '':'' # r" by (auto simp: prefix_def)
    then show ?thesis by (simp add: account_split_def split_on_append_sep)
  qed
qed

lemma get_path_leaf:
  "get_path (RealAccount name bal []) q = (if q = [] then Some (RealAccount name bal []) else None)"
  by (cases q) simp_all

lemma get_path_create_path:
  "get_path (create_path path r p) q = None \<longleftrightarrow> get_path r q = None \<and> \<not> prefix q p"
proof (induction p arbitrary: path r q)
  case Nil
  then show ?case by (cases q) simp_all
next
  case (Cons c cs)
  show ?case
  proof (cases q)
    case Nil
    then show ?thesis by simp
  next
    case (Cons c' qs)
    show ?thesis
    proof (cases "c' = c")
      case True
      then show ?thesis
        using Cons Cons.IH [of "path @ [c]" _ qs]
        by (auto simp: Let_def update_conv' get_path_leaf split: option.splits)
    next
      case False
      then show ?thesis
        using Cons by (auto simp: Let_def update_conv' split: option.splits)
    qed
  qed
qed

lemma get_path_update_balance:
  "get_path (update_balance r p f) q = None \<longleftrightarrow> get_path r q = None"
proof (induction p arbitrary: r q)
  case Nil
  then show ?case by (cases q) simp_all
next
  case (Cons c cs)
  show ?case
  proof (cases q)
    case Nil
    then show ?thesis by (simp split: option.splits)
  next
    case (Cons c' qs)
    then show ?thesis
      using Cons.IH [of _ qs]
      by (auto simp: update_conv' split: option.splits)
  qed
qed

subsection \<open>The loop\<close>

lemma get_add_posting: "get (add_posting r p) a = None \<longleftrightarrow> get r a = None"
  by (simp add: add_posting_def get_def get_path_update_balance split: option.splits)

lemma get_foldl_add_posting: "get (foldl add_posting r ps) a = None \<longleftrightarrow> get r a = None"
  by (induction ps arbitrary: r) (simp_all add: get_add_posting)

lemma check_entry_get:
  "check_entry r e = Inr (r', e', errs) \<Longrightarrow> get r' a = None \<longleftrightarrow> get r a = None"
  by (cases e) (auto simp: get_foldl_add_posting Let_def split: option.splits if_splits)

lemma check_entry_total:
  "\<forall>a\<in>set (asserted_of e). get r a \<noteq> None \<Longrightarrow> \<exists>r' e' errs. check_entry r e = Inr (r', e', errs)"
  by (cases e) (auto simp: Let_def)

lemma check_loop_total:
  "\<forall>a\<in>set (asserted_accounts es). get r a \<noteq> None \<Longrightarrow>
     \<exists>new' errs'. check_loop r new errs es = Inr (new', errs')"
proof (induction es arbitrary: r new errs)
  case Nil
  show ?case by simp
next
  case (Cons e es)
  from Cons.prems have "\<forall>a\<in>set (asserted_of e). get r a \<noteq> None"
    by (simp add: asserted_accounts_def)
  then obtain r' e' errs1 where step: "check_entry r e = Inr (r', e', errs1)"
    using check_entry_total by blast
  have "\<forall>a\<in>set (asserted_accounts es). get r' a \<noteq> None"
    using Cons.prems check_entry_get [OF step] by (simp add: asserted_accounts_def)
  from Cons.IH [OF this] show ?case
    by (simp add: step)
qed


lemma get_path_foldl_create:
  "get_path (foldl (\<lambda>real_root account. if P account then get_or_create real_root account else real_root) r accounts) q = None
     \<longleftrightarrow> get_path r q = None \<and> \<not> (\<exists>l\<in>set accounts. P l \<and> prefix q (account_split l))"
proof (induction accounts arbitrary: r)
  case Nil
  show ?case by simp
next
  case (Cons a as)
  show ?case
    unfolding foldl_Cons Cons.IH
    by (auto simp: get_or_create_def get_path_create_path)
qed

lemma account_split_not_Nil [simp]: "account_split a \<noteq> []"
  by (simp add: account_split_def)

lemma get_selection:
  "get (selection entries) a = None \<longleftrightarrow>
     \<not> (\<exists>l\<in>set (get_accounts entries). is_selected (asserted_accounts entries) l
        \<and> prefix (account_split a) (account_split l))"
  unfolding selection_def get_def get_path_foldl_create
  by (simp add: get_path_leaf)

lemma asserted_in_accounts: "set (asserted_accounts entries) \<subseteq> set (get_accounts entries)"
proof -
  have "set (asserted_of e) \<subseteq> set (entry_accounts e)" for e
    by (cases e) simp_all
  then show ?thesis
    by (fastforce simp: asserted_accounts_def get_accounts_def)
qed

lemma get_selection_asserted:
  "a \<in> set (asserted_accounts entries) \<Longrightarrow> get (selection entries) a \<noteq> None"
  unfolding get_selection
  using asserted_in_accounts by (auto simp: is_selected_def)

lemma check_total: "\<exists>new_entries check_errors. check entries options_map = Inr (new_entries, check_errors)"
  unfolding check_def
  by (rule check_loop_total) (simp add: get_selection_asserted)

lemma check_entry_outcome:
  "check_entry r e = Inr (r', e', errs) \<Longrightarrow> entry_outcome e (e', errs)"
  by (cases e) (auto simp: entry_outcome_def Let_def split: option.splits if_splits)

lemma check_loop_outcomes:
  "check_loop r new errs es = Inr (new', errs') \<Longrightarrow>
     \<exists>outs. list_all2 entry_outcome es outs \<and> new' = new @ map fst outs
        \<and> errs' = errs @ concat (map snd outs)"
proof (induction es arbitrary: r new errs)
  case Nil
  then show ?case by simp
next
  case (Cons e es)
  from Cons.prems obtain r1 e1 errs1 where
    step: "check_entry r e = Inr (r1, e1, errs1)"
    and rest: "check_loop r1 (new @ [e1]) (errs @ errs1) es = Inr (new', errs')"
    by (auto split: sum.splits)
  from Cons.IH [OF rest] obtain outs where
    outs: "list_all2 entry_outcome es outs" "new' = (new @ [e1]) @ map fst outs"
      "errs' = (errs @ errs1) @ concat (map snd outs)"
    by blast
  have "list_all2 entry_outcome (e # es) ((e1, errs1) # outs)"
    using outs(1) check_entry_outcome [OF step] by simp
  moreover have "new' = new @ map fst ((e1, errs1) # outs)"
    using outs(2) by simp
  moreover have "errs' = errs @ concat (map snd ((e1, errs1) # outs))"
    using outs(3) by simp
  ultimately show ?case by blast
qed

lemma outcomes_no_errors:
  "list_all2 entry_outcome es outs \<Longrightarrow> concat (map snd outs) = [] \<Longrightarrow> map fst outs = es"
  by (induction es outs rule: list_all2_induct) (auto simp: entry_outcome_def)

lemma outcomes_subseq:
  "list_all2 entry_outcome es outs \<Longrightarrow> subseq (map err_entry (concat (map snd outs))) es"
  by (induction es outs rule: list_all2_induct) (auto simp: entry_outcome_def)

lemma check_entry_emitted:
  "check_entry r e = Inr (r', e', errs) \<Longrightarrow> list_all emitted_ok errs"
  by (cases e)
    (auto simp: emitted_ok_def Let_def direction_def amount_bool_def CHECK_PRECISION_def
      split: option.splits if_splits)

lemma check_loop_emitted:
  "check_loop r new errs es = Inr (new', errs') \<Longrightarrow> list_all emitted_ok errs \<Longrightarrow>
     list_all emitted_ok errs'"
proof (induction es arbitrary: r new errs)
  case Nil
  then show ?case by simp
next
  case (Cons e es)
  from Cons.prems(1) obtain r1 e1 errs1 where
    step: "check_entry r e = Inr (r1, e1, errs1)"
    and rest: "check_loop r1 (new @ [e1]) (errs @ errs1) es = Inr (new', errs')"
    by (auto split: sum.splits)
  show ?case
    using Cons.IH [OF rest] Cons.prems(2) check_entry_emitted [OF step] by simp
qed

lemma subtree_total_get_amount:
  "subtree_total real_account cur =
     (\<Sum>n\<leftarrow>iter_children real_account. number (get_amount (balance n) cur))"
  by (simp add: subtree_total_def get_amount_def)

lemma sum_list_all_zero:
  fixes f :: "'a \<Rightarrow> rat"
  shows "\<forall>x\<in>set xs. f x = 0 \<Longrightarrow> sum_list (map f xs) = 0"
  by (induction xs) simp_all

lemma tracked_selected:
  assumes "tracked entries t"
  shows "\<exists>l\<in>set (get_accounts entries). is_selected (asserted_accounts entries) l
            \<and> prefix (account_split t) (account_split l)"
proof -
  from assms consider
      (named) "t \<in> set (asserted_accounts entries)"
    | (above) s where "s \<in> set (asserted_accounts entries)" "is_ancestor t s"
    | (below) s where "t \<in> set (get_accounts entries)" "s \<in> set (asserted_accounts entries)"
        "is_ancestor s t"
    by (auto simp: tracked_def list_ex_iff)
  then show ?thesis
  proof cases
    case named
    then show ?thesis
      using asserted_in_accounts [of entries] by (auto simp: is_selected_def)
  next
    case above
    then have "prefix (account_split t) (account_split s)"
      by (simp add: prefix_account_split is_ancestor_def)
    with above(1) show ?thesis
      using asserted_in_accounts [of entries] by (auto simp: is_selected_def)
  next
    case below
    from below(3) have "prefix s t"
      by (auto simp: is_ancestor_def prefix_def)
    with below(1,2) show ?thesis
      by (auto simp: is_selected_def list_ex_iff)
  qed
qed

lemma get_tree_after: "get (tree_after r es) a = None \<longleftrightarrow> get r a = None"
proof (induction es arbitrary: r)
  case Nil
  show ?case by simp
next
  case (Cons e es)
  show ?case
  proof (cases "check_entry r e")
    case (Inl failure)
    then show ?thesis by simp
  next
    case (Inr res)
    obtain r' e' errs where "res = (r', e', errs)" by (cases res)
    with Inr Cons.IH [of r'] check_entry_get [of r e r' e' errs a] show ?thesis by simp
  qed
qed

lemma asserted_nth:
  "i < length entries \<Longrightarrow> entries ! i = Balance loc d account expected diff \<Longrightarrow>
     account \<in> set (asserted_accounts entries)"
proof -
  assume "i < length entries" "entries ! i = Balance loc d account expected diff"
  then have "Balance loc d account expected diff \<in> set entries"
    by (metis nth_mem)
  then show ?thesis
    by (force simp: asserted_accounts_def)
qed

lemma selected_delimited:
  assumes "well_delimited entries" "l \<in> set (get_accounts entries)"
    "is_selected (asserted_accounts entries) l"
  shows "tracked entries l"
proof -
  from assms(3) consider "l \<in> set (asserted_accounts entries)"
    | s where "s \<in> set (asserted_accounts entries)" "prefix s l"
    by (auto simp: is_selected_def list_ex_iff)
  then show "tracked entries l"
  proof cases
    case 1
    then show ?thesis by (simp add: tracked_def)
  next
    case 2
    with assms have "l = s \<or> is_ancestor s l"
      by (auto simp: well_delimited_def list_all_iff)
    with 2(1) assms(2) show ?thesis
      by (auto simp: tracked_def list_ex_iff)
  qed
qed

lemma check_loop_steps:
  "check_loop r new errs es = Inr (new', errs') \<Longrightarrow>
     \<exists>outs. length outs = length es \<and> new' = new @ map fst outs
        \<and> errs' = errs @ concat (map snd outs)
        \<and> (\<forall>i<length es.
              check_entry (tree_after r (take i es)) (es ! i)
                = Inr (tree_after r (take (Suc i) es), outs ! i))"
proof (induction es arbitrary: r new errs)
  case Nil
  then show ?case by simp
next
  case (Cons e es)
  from Cons.prems obtain r1 e1 errs1 where
    step: "check_entry r e = Inr (r1, e1, errs1)"
    and rest: "check_loop r1 (new @ [e1]) (errs @ errs1) es = Inr (new', errs')"
    by (auto split: sum.splits)
  from Cons.IH [OF rest] obtain outs where
    outs: "length outs = length es" "new' = (new @ [e1]) @ map fst outs"
      "errs' = (errs @ errs1) @ concat (map snd outs)"
      "\<forall>i<length es. check_entry (tree_after r1 (take i es)) (es ! i)
                = Inr (tree_after r1 (take (Suc i) es), outs ! i)"
    by blast
  let ?outs = "(e1, errs1) # outs"
  have "check_entry (tree_after r (take i (e # es))) ((e # es) ! i)
          = Inr (tree_after r (take (Suc i) (e # es)), ?outs ! i)"
    if "i < length (e # es)" for i
  proof (cases i)
    case 0
    then show ?thesis by (simp add: step)
  next
    case (Suc j)
    with that outs(4) show ?thesis by (simp add: step)
  qed
  then have "\<forall>i<length (e # es).
      check_entry (tree_after r (take i (e # es))) ((e # es) ! i)
          = Inr (tree_after r (take (Suc i) (e # es)), ?outs ! i)"
    by blast
  moreover have "length ?outs = length (e # es)" using outs(1) by simp
  moreover have "new' = new @ map fst ?outs" using outs(2) by simp
  moreover have "errs' = errs @ concat (map snd ?outs)" using outs(3) by simp
  ultimately show ?case by blast
qed

lemma check_steps:
  "\<exists>outs. check entries options_map = Inr (map fst outs, concat (map snd outs))
     \<and> length outs = length entries
     \<and> (\<forall>i<length entries.
          check_entry (tree_after (selection entries) (take i entries)) (entries ! i)
            = Inr (tree_after (selection entries) (take (Suc i) entries), outs ! i))"
proof -
  obtain new_entries check_errors where
    res: "check_loop (selection entries) [] [] entries = Inr (new_entries, check_errors)"
    using check_total [of entries options_map] by (auto simp: check_def)
  from check_loop_steps [OF res] show ?thesis
    by (auto simp: check_def res)
qed

lemma get_at_assertion:
  assumes "i < length entries" "entries ! i = Balance loc d account expected diff"
  shows "\<exists>real_account.
    get (tree_after (selection entries) (take i entries)) account = Some real_account"
proof -
  from asserted_nth [OF assms] have "get (selection entries) account \<noteq> None"
    by (rule get_selection_asserted)
  then have "get (tree_after (selection entries) (take i entries)) account \<noteq> None"
    by (simp add: get_tree_after)
  then show ?thesis by blast
qed

subsection \<open>The examples, evaluated\<close>

lemma get_bank_tree: "get bank_tree ''Assets:Bank'' = Some bank_node"
  by (simp add: bank_tree_def bank_node_def get_def account_split_def)

lemma selection_cash:
  "selection cash_entries =
     RealAccount [] [] [(''Assets'', RealAccount ''Assets'' [] [(''Cash'', RealAccount ''Assets:Cash'' [] [])])]"
  by (simp add: selection_def cash_entries_def get_accounts_def asserted_accounts_def
      is_selected_def get_or_create_def account_split_def)

lemma check_cash:
  "check cash_entries options_map =
     Inr ([Transaction (''ledger'', 1) 1 [Posting ''Assets:Cash'' (Position (Lot ''USD'' None) 100)],
           Balance (''ledger'', 2) 2 ''Assets:Cash'' (Amount 100 ''USD'') None,
           Balance (''ledger'', 3) 3 ''Assets:Cash'' (Amount 90 ''USD'') (Some (Amount 10 ''USD''))],
          [BalanceError (''ledger'', 3)
             (Message ''Assets:Cash'' (Amount 100 ''USD'') (Amount 90 ''USD'') (Amount 10 ''USD'') ''too much'')
             (Balance (''ledger'', 3) 3 ''Assets:Cash'' (Amount 90 ''USD'') None)])"
  unfolding check_def selection_cash
  by (simp add: cash_entries_def add_posting_def get_def account_split_def subtree_balance_def
      add_inventory_def get_amount_def amount_sub_def CHECK_PRECISION_def direction_def
      amount_bool_def Let_def)

lemma check_passing:
  "check passing_entries options_map =
     Inr ([Transaction (''ledger'', 1) 1 [Posting ''Assets:Cash'' (Position (Lot ''USD'' None) 100)],
           Balance (''ledger'', 2) 2 ''Assets:Cash'' (Amount 100 ''USD'') None], [])"
  by (simp add: check_def selection_def passing_entries_def get_accounts_def asserted_accounts_def
      is_selected_def get_or_create_def account_split_def add_posting_def get_def
      subtree_balance_def add_inventory_def get_amount_def amount_sub_def CHECK_PRECISION_def
      Let_def)

lemma get_cash_tree: "get cash_tree ''Assets:Cash'' = Some cash_node"
  by (simp add: cash_tree_def get_def account_split_def)

lemma cash_node_USD: "get_amount (subtree_balance cash_node) ''USD'' = Amount 100 ''USD''"
  by (simp add: cash_node_def subtree_balance_def add_inventory_def get_amount_def)



lemma tree_after_cash:
  "tree_after (selection cash_entries) (take (Suc 0) cash_entries) = cash_tree"
  "tree_after (selection cash_entries) (take 2 cash_entries) = cash_tree"
  unfolding selection_cash
  by (simp_all add: cash_entries_def cash_tree_def cash_node_def add_posting_def get_def
      account_split_def Let_def)

lemma selection_deep:
  "selection deep_entries =
     RealAccount [] []
       [(''Assets'', RealAccount ''Assets'' []
          [(''Bank'', RealAccount ''Assets:Bank'' []
             [(''Checking'', RealAccount ''Assets:Bank:Checking'' []
                [(''Joint'', RealAccount ''Assets:Bank:Checking:Joint'' [] [])])])])]"
  by (simp add: selection_def deep_entries_def get_accounts_def asserted_accounts_def
      is_selected_def get_or_create_def account_split_def)

lemma not_tracked_deep: "\<not> tracked deep_entries ''Assets:Bank:Checking''"
  by (simp add: tracked_def deep_entries_def get_accounts_def asserted_accounts_def
      is_ancestor_def)

lemma selection_sibling:
  "selection sibling_entries =
     RealAccount [] []
       [(''Assets'', RealAccount ''Assets'' []
          [(''CashReserve'', RealAccount ''Assets:CashReserve'' [] []),
           (''Cash'', RealAccount ''Assets:Cash'' [] [])])]"
  by (simp add: selection_def sibling_entries_def get_accounts_def asserted_accounts_def
      is_selected_def get_or_create_def account_split_def)

section \<open>Properties\<close>

subsection \<open>What an assertion is compared with\<close>

text \<open>
  C1. When the loop evaluates a balance assertion whose node is \<open>real_account\<close>, the
  amount it compares with the expected amount is the sum, over the node and all of its
  descendants, of the units that each node's own inventory holds in the currency of the
  assertion. The outcome of the entry is a function of that sum alone. The amount is zero
  when no position of the subtree is in that currency, and two subtrees whose positions
  in that currency are the same give the same amount, whatever they hold in other
  currencies.
\<close>

theorem balance_compares_subtree_total:
  assumes "get real_root account = Some real_account"
  shows "get_amount (subtree_balance real_account) (currency expected) =
           Amount (subtree_total real_account (currency expected)) (currency expected)
    \<and> check_entry real_root (Balance loc d account expected diff) =
       (let total = subtree_total real_account (currency expected);
            balance_amount = Amount total (currency expected);
            diff_amount = Amount (total - number expected) (currency expected)
        in if \<bar>total - number expected\<bar> > CHECK_PRECISION
           then Inr (real_root, Balance loc d account expected (Some diff_amount),
                  [BalanceError loc
                     (Message account balance_amount expected diff_amount (direction diff_amount))
                     (Balance loc d account expected diff)])
           else Inr (real_root, Balance loc d account expected diff, []))
    \<and> ((\<forall>n\<in>set (iter_children real_account). \<forall>p\<in>set (balance n).
            lot_currency (lot p) \<noteq> currency expected)
         \<longrightarrow> get_amount (subtree_balance real_account) (currency expected) = Amount 0 (currency expected))
    \<and> (map (\<lambda>n. filter (\<lambda>p. lot_currency (lot p) = currency expected) (balance n))
            (iter_children real_account)
          = map (\<lambda>n. filter (\<lambda>p. lot_currency (lot p) = currency expected) (balance n))
              (iter_children other_account)
         \<longrightarrow> get_amount (subtree_balance other_account) (currency expected)
             = get_amount (subtree_balance real_account) (currency expected))"
proof (intro conjI impI)
  show total: "get_amount (subtree_balance real_account) (currency expected) =
      Amount (subtree_total real_account (currency expected)) (currency expected)"
    by (simp add: get_amount_subtree_balance subtree_total_get_amount)
  show "check_entry real_root (Balance loc d account expected diff) =
       (let total = subtree_total real_account (currency expected);
            balance_amount = Amount total (currency expected);
            diff_amount = Amount (total - number expected) (currency expected)
        in if \<bar>total - number expected\<bar> > CHECK_PRECISION
           then Inr (real_root, Balance loc d account expected (Some diff_amount),
                  [BalanceError loc
                     (Message account balance_amount expected diff_amount (direction diff_amount))
                     (Balance loc d account expected diff)])
           else Inr (real_root, Balance loc d account expected diff, []))"
    using assms by (simp add: total amount_sub_def Let_def)
next
  assume "\<forall>n\<in>set (iter_children real_account). \<forall>p\<in>set (balance n).
            lot_currency (lot p) \<noteq> currency expected"
  then have "\<forall>n\<in>set (iter_children real_account).
      filter (\<lambda>p. lot_currency (lot p) = currency expected) (balance n) = []"
    by (auto simp: filter_empty_conv)
  then have "subtree_total real_account (currency expected) = 0"
    unfolding subtree_total_def
    by (intro sum_list_all_zero) simp
  then show "get_amount (subtree_balance real_account) (currency expected) = Amount 0 (currency expected)"
    by (simp add: get_amount_subtree_balance subtree_total_get_amount)
next
  assume "map (\<lambda>n. filter (\<lambda>p. lot_currency (lot p) = currency expected) (balance n))
            (iter_children real_account)
          = map (\<lambda>n. filter (\<lambda>p. lot_currency (lot p) = currency expected) (balance n))
              (iter_children other_account)"
  then have "map (\<lambda>ps. sum_list (map units ps))
             (map (\<lambda>n. filter (\<lambda>p. lot_currency (lot p) = currency expected) (balance n))
                (iter_children real_account))
          = map (\<lambda>ps. sum_list (map units ps))
             (map (\<lambda>n. filter (\<lambda>p. lot_currency (lot p) = currency expected) (balance n))
                (iter_children other_account))"
    by (rule arg_cong)
  then have "subtree_total real_account (currency expected) = subtree_total other_account (currency expected)"
    unfolding subtree_total_def by (simp add: comp_def)
  then show "get_amount (subtree_balance other_account) (currency expected)
             = get_amount (subtree_balance real_account) (currency expected)"
    by (simp add: get_amount_subtree_balance subtree_total_get_amount)
qed

theorem balance_compares_subtree_total_witness:
  "get bank_tree ''Assets:Bank'' = Some bank_node
   \<and> get_amount (subtree_balance bank_node) ''CUR'' = Amount 15 ''CUR''
   \<and> check_entry bank_tree (Balance (''ledger'', 2) 2 ''Assets:Bank'' (Amount 15 ''CUR'') None)
       = Inr (bank_tree, Balance (''ledger'', 2) 2 ''Assets:Bank'' (Amount 15 ''CUR'') None, [])
   \<and> get_amount (subtree_balance bank_node_plain) ''CUR'' = get_amount (subtree_balance bank_node) ''CUR''
   \<and> get_amount (subtree_balance bank_node) ''GBP'' = Amount 0 ''GBP''"
proof -
  have total: "subtree_total bank_node ''CUR'' = 15"
    by (simp add: subtree_total_def bank_node_def)
  have same: "map (\<lambda>n. filter (\<lambda>p. lot_currency (lot p) = ''CUR'') (balance n)) (iter_children bank_node)
      = map (\<lambda>n. filter (\<lambda>p. lot_currency (lot p) = ''CUR'') (balance n)) (iter_children bank_node_plain)"
    by (simp add: bank_node_def bank_node_plain_def)
  have absent: "\<forall>n\<in>set (iter_children bank_node). \<forall>p\<in>set (balance n). lot_currency (lot p) \<noteq> ''GBP''"
    by (simp add: bank_node_def)
  note cur = balance_compares_subtree_total [OF get_bank_tree,
      of "Amount 15 ''CUR''" "(''ledger'', 2)" 2 None bank_node_plain, unfolded amount.sel]
  note gbp = balance_compares_subtree_total [OF get_bank_tree,
      of "Amount 0 ''GBP''" "(''ledger'', 2)" 2 None bank_node_plain, unfolded amount.sel]
  have a1: "get_amount (subtree_balance bank_node) ''CUR'' = Amount 15 ''CUR''"
    using cur [THEN conjunct1] by (simp only: total)
  have "check_entry bank_tree (Balance (''ledger'', 2) 2 ''Assets:Bank'' (Amount 15 ''CUR'') None) =
       (let total = subtree_total bank_node ''CUR'';
            balance_amount = Amount total ''CUR'';
            diff_amount = Amount (total - 15) ''CUR''
        in if \<bar>total - 15\<bar> > CHECK_PRECISION
           then Inr (bank_tree, Balance (''ledger'', 2) 2 ''Assets:Bank'' (Amount 15 ''CUR'') (Some diff_amount),
                  [BalanceError (''ledger'', 2)
                     (Message ''Assets:Bank'' balance_amount (Amount 15 ''CUR'') diff_amount (direction diff_amount))
                     (Balance (''ledger'', 2) 2 ''Assets:Bank'' (Amount 15 ''CUR'') None)])
           else Inr (bank_tree, Balance (''ledger'', 2) 2 ''Assets:Bank'' (Amount 15 ''CUR'') None, []))"
    by (rule cur [THEN conjunct2, THEN conjunct1])
  also have "\<dots> = Inr (bank_tree, Balance (''ledger'', 2) 2 ''Assets:Bank'' (Amount 15 ''CUR'') None, [])"
    by (simp add: total CHECK_PRECISION_def)
  finally have a2: "check_entry bank_tree (Balance (''ledger'', 2) 2 ''Assets:Bank'' (Amount 15 ''CUR'') None)
       = Inr (bank_tree, Balance (''ledger'', 2) 2 ''Assets:Bank'' (Amount 15 ''CUR'') None, [])" .
  have a3: "get_amount (subtree_balance bank_node_plain) ''CUR'' = get_amount (subtree_balance bank_node) ''CUR''"
    by (rule cur [THEN conjunct2, THEN conjunct2, THEN conjunct2, THEN mp, OF same])
  have a4: "get_amount (subtree_balance bank_node) ''GBP'' = Amount 0 ''GBP''"
    by (rule gbp [THEN conjunct2, THEN conjunct2, THEN conjunct1, THEN mp, OF absent])
  from get_bank_tree a1 a2 a3 a4 show ?thesis by (intro conjI)
qed

subsection \<open>The tolerance\<close>



subsection \<open>Length and order of the results\<close>

text \<open>
  C3. For every list of entries the pass returns, for each entry in order, one output
  entry and no or one error: the output has the length of the input, the entry at each
  position is the input entry or, for a balance assertion, its copy with the difference
  filled in, together with one error that refers to the input entry, and the errors are
  in the order of the entries they refer to.
\<close>

theorem entries_kept_in_place:
  "\<exists>outs. check entries options_map = Inr (map fst outs, concat (map snd outs))
     \<and> length (map fst outs) = length entries
     \<and> list_all2 entry_outcome entries outs
     \<and> subseq (map err_entry (concat (map snd outs))) entries"
proof -
  obtain new_entries check_errors where
    res: "check_loop (selection entries) [] [] entries = Inr (new_entries, check_errors)"
    using check_total [of entries options_map] by (auto simp: check_def)
  from check_loop_outcomes [OF res] obtain outs where
    outs: "list_all2 entry_outcome entries outs" "new_entries = map fst outs"
      "check_errors = concat (map snd outs)"
    by auto
  have "length (map fst outs) = length entries"
    using outs(1) by (simp add: list_all2_lengthD)
  then show ?thesis
    using res outs outcomes_subseq [OF outs(1)] by (auto simp: check_def)
qed

theorem entries_kept_in_place_witness:
  "\<exists>outs. check cash_entries Map.empty = Inr (map fst outs, concat (map snd outs))
     \<and> length (map fst outs) = 3
     \<and> list_all2 entry_outcome cash_entries outs
     \<and> subseq (map err_entry (concat (map snd outs))) cash_entries"
proof -
  have "length cash_entries = 3" by (simp add: cash_entries_def)
  with entries_kept_in_place [of cash_entries Map.empty] show ?thesis by simp
qed

subsection \<open>The entry that replaces a failed assertion\<close>

text \<open>
  C4. The pass returns as many entries as it is given. At the position of a balance
  assertion the node is found in the tree that the loop holds when it reaches the
  assertion; when the absolute value of the accumulated amount minus the expected amount
  exceeds the tolerance, the output entry at that position has the location, date,
  account and expected amount of the assertion, and the accumulated amount minus the
  expected amount as its difference; otherwise the output entry is the assertion itself,
  so its difference stays absent when it was. At the position of a transaction or of any
  other directive the output entry is the input entry.
\<close>

theorem failing_entry_carries_diff:
  "\<exists>new_entries check_errors.
     check entries options_map = Inr (new_entries, check_errors)
     \<and> length new_entries = length entries
     \<and> (\<forall>i<length entries.
          (\<forall>loc d account expected diff.
             entries ! i = Balance loc d account expected diff \<longrightarrow>
             (\<exists>real_account.
                get (tree_after (selection entries) (take i entries)) account = Some real_account
                \<and> (let accumulated = get_amount (subtree_balance real_account) (currency expected);
                        diff_amount =
                          Amount (number accumulated - number expected) (currency expected)
                    in new_entries ! i =
                         (if \<bar>number diff_amount\<bar> > CHECK_PRECISION
                          then Balance loc d account expected (Some diff_amount)
                          else Balance loc d account expected diff))))
          \<and> ((\<forall>loc d account expected diff.
                 entries ! i \<noteq> Balance loc d account expected diff)
               \<longrightarrow> new_entries ! i = entries ! i))"
proof -
  from check_steps [of entries options_map] obtain outs where
    res: "check entries options_map = Inr (map fst outs, concat (map snd outs))"
    and len: "length outs = length entries"
    and steps: "\<forall>i<length entries.
          check_entry (tree_after (selection entries) (take i entries)) (entries ! i)
            = Inr (tree_after (selection entries) (take (Suc i) entries), outs ! i)"
    by blast
  have bal: "\<exists>real_account.
                get (tree_after (selection entries) (take i entries)) account = Some real_account
                \<and> (let accumulated = get_amount (subtree_balance real_account) (currency expected);
                        diff_amount =
                          Amount (number accumulated - number expected) (currency expected)
                    in map fst outs ! i =
                         (if \<bar>number diff_amount\<bar> > CHECK_PRECISION
                          then Balance loc d account expected (Some diff_amount)
                          else Balance loc d account expected diff))"
    if i: "i < length entries" and e: "entries ! i = Balance loc d account expected diff"
    for i loc d account expected diff
  proof -
    from get_at_assertion [OF i e] obtain real_account where
      node: "get (tree_after (selection entries) (take i entries)) account = Some real_account"
      by blast
    have "check_entry (tree_after (selection entries) (take i entries))
          (Balance loc d account expected diff)
        = Inr (tree_after (selection entries) (take (Suc i) entries), outs ! i)"
      using steps [rule_format, OF i] unfolding e .
    then have "outs ! i = snd (projr (check_entry (tree_after (selection entries) (take i entries))
          (Balance loc d account expected diff)))"
      by simp
    with node have "fst (outs ! i) =
        (if \<bar>number (get_amount (subtree_balance real_account) (currency expected))
               - number expected\<bar> > CHECK_PRECISION
         then Balance loc d account expected
               (Some (Amount (number (get_amount (subtree_balance real_account) (currency expected))
                        - number expected) (currency expected)))
         else Balance loc d account expected diff)"
      by (simp add: Let_def amount_sub_def)
    with node i len show ?thesis by (simp add: Let_def)
  qed
  have other: "map fst outs ! i = entries ! i"
    if i: "i < length entries"
      and e: "\<forall>loc d account expected diff. entries ! i \<noteq> Balance loc d account expected diff"
    for i
  proof -
    from steps i have
      "check_entry (tree_after (selection entries) (take i entries)) (entries ! i)
        = Inr (tree_after (selection entries) (take (Suc i) entries), outs ! i)"
      by simp
    then have "outs ! i = snd (projr (check_entry
        (tree_after (selection entries) (take i entries)) (entries ! i)))"
      by simp
    with e i len show ?thesis
      by (cases "entries ! i") simp_all
  qed
  have "length (map fst outs) = length entries" using len by simp
  with res bal other show ?thesis by blast
qed

theorem failing_entry_carries_diff_witness:
  "cash_entries ! 2 = Balance (''ledger'', 3) 3 ''Assets:Cash'' (Amount 90 ''USD'') None
   \<and> get (tree_after (selection cash_entries) (take 2 cash_entries)) ''Assets:Cash''
       = Some cash_node
   \<and> get_amount (subtree_balance cash_node) ''USD'' = Amount 100 ''USD''
   \<and> (\<exists>new_entries check_errors.
         check cash_entries Map.empty = Inr (new_entries, check_errors)
         \<and> new_entries ! 0 = cash_entries ! 0
         \<and> new_entries ! 1 = cash_entries ! 1
         \<and> new_entries ! 2
             = Balance (''ledger'', 3) 3 ''Assets:Cash'' (Amount 90 ''USD'')
                 (Some (Amount 10 ''USD'')))"
proof -
  have e1: "cash_entries ! 1
     = Balance (''ledger'', 2) 2 ''Assets:Cash'' (Amount 100 ''USD'') None"
    and e2: "cash_entries ! 2
     = Balance (''ledger'', 3) 3 ''Assets:Cash'' (Amount 90 ''USD'') None"
    and e0: "cash_entries ! 0
     = Transaction (''ledger'', 1) 1 [Posting ''Assets:Cash'' (Position (Lot ''USD'' None) 100)]"
    and l: "length cash_entries = 3"
    by (simp_all add: cash_entries_def)
  from failing_entry_carries_diff [of cash_entries Map.empty] obtain new_entries check_errors where
    res: "check cash_entries Map.empty = Inr (new_entries, check_errors)"
    and pos: "\<forall>i<length cash_entries.
          (\<forall>loc d account expected diff.
             cash_entries ! i = Balance loc d account expected diff \<longrightarrow>
             (\<exists>real_account.
                get (tree_after (selection cash_entries) (take i cash_entries)) account
                  = Some real_account
                \<and> (let accumulated = get_amount (subtree_balance real_account) (currency expected);
                        diff_amount =
                          Amount (number accumulated - number expected) (currency expected)
                    in new_entries ! i =
                         (if \<bar>number diff_amount\<bar> > CHECK_PRECISION
                          then Balance loc d account expected (Some diff_amount)
                          else Balance loc d account expected diff))))
          \<and> ((\<forall>loc d account expected diff.
                 cash_entries ! i \<noteq> Balance loc d account expected diff)
               \<longrightarrow> new_entries ! i = cash_entries ! i)"
    by blast
  from pos [rule_format, of 0, THEN conjunct2] have n0: "new_entries ! 0 = cash_entries ! 0"
    by (simp add: l e0)
  from pos [rule_format, of 1, THEN conjunct1, rule_format, OF _ e1]
  have n1: "new_entries ! 1 = cash_entries ! 1"
    using e1
    by (simp add: l tree_after_cash get_cash_tree cash_node_USD Let_def CHECK_PRECISION_def)
  from pos [rule_format, of 2, THEN conjunct1, rule_format, OF _ e2]
  have n2: "new_entries ! 2
             = Balance (''ledger'', 3) 3 ''Assets:Cash'' (Amount 90 ''USD'')
                 (Some (Amount 10 ''USD''))"
    by (simp add: l tree_after_cash get_cash_tree cash_node_USD Let_def CHECK_PRECISION_def)
  from res n0 n1 n2 e2 show ?thesis
    by (auto simp: tree_after_cash get_cash_tree cash_node_USD)
qed

subsection \<open>The nodes that exist before the replay\<close>

text \<open>
  C5, as the code has it: before the replay a node exists at every tracked account and
  at every ancestor of a tracked account; a node exists at an account only when the
  account appears in the ledger or is an ancestor of an account that appears in the
  ledger; and in a ledger in which every account that starts with an asserted account
  is that account or a descendant of it, a node exists at an account exactly when the
  account is tracked or an ancestor of a tracked account.
\<close>

theorem tracked_accounts_have_nodes:
  "(tracked entries a \<or> (\<exists>t. tracked entries t \<and> is_ancestor a t)
      \<longrightarrow> get (selection entries) a \<noteq> None)
   \<and> (get (selection entries) a \<noteq> None \<longrightarrow>
        (\<exists>l\<in>set (get_accounts entries). a = l \<or> is_ancestor a l))
   \<and> (well_delimited entries \<longrightarrow>
        (get (selection entries) a \<noteq> None
           \<longleftrightarrow> tracked entries a \<or> (\<exists>t. tracked entries t \<and> is_ancestor a t)))"
proof -
  have forward: "get (selection entries) a \<noteq> None"
    if "tracked entries a \<or> (\<exists>t. tracked entries t \<and> is_ancestor a t)"
  proof -
    from that obtain t where t: "tracked entries t"
      and "prefix (account_split a) (account_split t)"
      by (auto simp: prefix_account_split is_ancestor_def)
    with tracked_selected [OF t] show ?thesis
      unfolding get_selection by (meson prefix_order.trans)
  qed
  have ledger: "\<exists>l\<in>set (get_accounts entries). a = l \<or> is_ancestor a l"
    if "get (selection entries) a \<noteq> None"
    using that unfolding get_selection
    by (auto simp: prefix_account_split is_ancestor_def)
  have backward: "tracked entries a \<or> (\<exists>t. tracked entries t \<and> is_ancestor a t)"
    if "well_delimited entries" "get (selection entries) a \<noteq> None"
  proof -
    from that(2) obtain l where l: "l \<in> set (get_accounts entries)"
      "is_selected (asserted_accounts entries) l" "a = l \<or> is_ancestor a l"
      unfolding get_selection by (auto simp: prefix_account_split is_ancestor_def)
    from selected_delimited [OF that(1) l(1,2)] l(3) show ?thesis by blast
  qed
  from forward ledger backward show ?thesis by blast
qed

theorem tracked_accounts_have_nodes_witness:
  "tracked deep_entries ''Assets:Bank:Checking:Joint''
   \<and> is_ancestor ''Assets:Bank:Checking'' ''Assets:Bank:Checking:Joint''
   \<and> well_delimited deep_entries
   \<and> get (selection deep_entries) ''Assets:Bank:Checking'' \<noteq> None
   \<and> (\<exists>l. l \<in> set (get_accounts deep_entries)
          \<and> (''Assets:Bank:Checking'' = l \<or> is_ancestor ''Assets:Bank:Checking'' l))
   \<and> (\<exists>t. tracked deep_entries t \<and> is_ancestor ''Assets:Bank:Checking'' t)"
proof -
  have tr: "tracked deep_entries ''Assets:Bank:Checking:Joint''"
    by (simp add: tracked_def deep_entries_def get_accounts_def asserted_accounts_def
        is_ancestor_def)
  have anc: "is_ancestor ''Assets:Bank:Checking'' ''Assets:Bank:Checking:Joint''"
    by (simp add: is_ancestor_def)
  have wd: "well_delimited deep_entries"
    by (simp add: well_delimited_def deep_entries_def get_accounts_def asserted_accounts_def
        is_ancestor_def)
  note nodes = tracked_accounts_have_nodes [of deep_entries "''Assets:Bank:Checking''"]
  from nodes tr anc have n: "get (selection deep_entries) ''Assets:Bank:Checking'' \<noteq> None"
    by blast
  with nodes have "\<exists>l. l \<in> set (get_accounts deep_entries)
      \<and> (''Assets:Bank:Checking'' = l \<or> is_ancestor ''Assets:Bank:Checking'' l)"
    by blast
  moreover from nodes wd n not_tracked_deep
  have "\<exists>t. tracked deep_entries t \<and> is_ancestor ''Assets:Bank:Checking'' t"
    by blast
  ultimately show ?thesis using tr anc wd n by blast
qed

text \<open>
  C5, as it is stated, fails: with an assertion on \<open>Assets:Bank\<close> and a posting to
  \<open>Assets:Bank:Checking:Joint\<close>, a node exists at \<open>Assets:Bank:Checking\<close>, an account
  that no assertion names, that is no ancestor of \<open>Assets:Bank\<close> and that does not
  appear in the ledger.
\<close>

theorem node_of_untracked_account_counterexample:
  "\<not> (get (selection deep_entries) ''Assets:Bank:Checking'' \<noteq> None
        \<longleftrightarrow> tracked deep_entries ''Assets:Bank:Checking'')"
  by (simp add: selection_deep not_tracked_deep get_def account_split_def)

subsection \<open>Postings to accounts that are not tracked\<close>

text \<open>
  C6, at a ledger with a posting to \<open>Assets:CashReserve\<close> and an assertion on
  \<open>Assets:Cash\<close>. The account of the posting is not tracked: it is not asserted, and
  it is neither an ancestor nor a descendant of \<open>Assets:Cash\<close>. Line 59 compares with
  \<open>startswith\<close> and no delimiter, so a node is created for it, and the posting is
  added to the inventory of that node. The assertion passes all the same.
\<close>

theorem sibling_posting_not_skipped:
  "\<not> tracked sibling_entries ''Assets:CashReserve''
   \<and> get (selection sibling_entries) ''Assets:CashReserve''
       = Some (RealAccount ''Assets:CashReserve'' [] [])
   \<and> (\<exists>real_root.
         check_entry (selection sibling_entries)
           (Transaction (''ledger'', 1) 1
              [Posting ''Assets:CashReserve'' (Position (Lot ''USD'' None) 5),
               Posting ''Income:Gifts'' (Position (Lot ''USD'' None) (- 5))])
         = Inr (real_root,
             Transaction (''ledger'', 1) 1
               [Posting ''Assets:CashReserve'' (Position (Lot ''USD'' None) 5),
                Posting ''Income:Gifts'' (Position (Lot ''USD'' None) (- 5))], [])
         \<and> get real_root ''Assets:CashReserve''
             = Some (RealAccount ''Assets:CashReserve'' [Position (Lot ''USD'' None) 5] []))
   \<and> check sibling_entries Map.empty = Inr (sibling_entries, [])"
proof (intro conjI)
  show "\<not> tracked sibling_entries ''Assets:CashReserve''"
    by (simp add: tracked_def sibling_entries_def get_accounts_def asserted_accounts_def
        is_ancestor_def)
  show "get (selection sibling_entries) ''Assets:CashReserve''
       = Some (RealAccount ''Assets:CashReserve'' [] [])"
    by (simp add: selection_sibling get_def account_split_def)
  show "\<exists>real_root.
         check_entry (selection sibling_entries)
           (Transaction (''ledger'', 1) 1
              [Posting ''Assets:CashReserve'' (Position (Lot ''USD'' None) 5),
               Posting ''Income:Gifts'' (Position (Lot ''USD'' None) (- 5))])
         = Inr (real_root,
             Transaction (''ledger'', 1) 1
               [Posting ''Assets:CashReserve'' (Position (Lot ''USD'' None) 5),
                Posting ''Income:Gifts'' (Position (Lot ''USD'' None) (- 5))], [])
         \<and> get real_root ''Assets:CashReserve''
             = Some (RealAccount ''Assets:CashReserve'' [Position (Lot ''USD'' None) 5] [])"
    by (simp add: selection_sibling add_posting_def get_def account_split_def)
  show "check sibling_entries Map.empty = Inr (sibling_entries, [])"
    unfolding check_def selection_sibling
    by (simp add: sibling_entries_def add_posting_def get_def account_split_def
        subtree_balance_def add_inventory_def get_amount_def amount_sub_def CHECK_PRECISION_def
        Let_def)
qed

subsection \<open>The direction in the message of an error\<close>

text \<open>
  C7. The direction in a message is \<open>too much\<close> when the number of the difference is
  not zero, of either sign, and \<open>too little\<close> when it is zero. The pass returns a
  result for every list of entries, and every error in it has the direction of its own
  difference, a difference that is not zero, and so the direction \<open>too much\<close>.
\<close>

theorem emitted_errors_say_too_much:
  "(number diff_amount \<noteq> 0 \<longrightarrow> direction diff_amount = ''too much'')
   \<and> (number diff_amount = 0 \<longrightarrow> direction diff_amount = ''too little'')
   \<and> (\<exists>new_entries check_errors.
         check entries options_map = Inr (new_entries, check_errors)
         \<and> (\<forall>err\<in>set check_errors.
               msg_direction (err_message err) = direction (msg_diff (err_message err))
               \<and> number (msg_diff (err_message err)) \<noteq> 0
               \<and> msg_direction (err_message err) = ''too much''))"
proof -
  obtain new_entries check_errors where
    res: "check_loop (selection entries) [] [] entries = Inr (new_entries, check_errors)"
    using check_total [of entries options_map] by (auto simp: check_def)
  from check_loop_emitted [OF res] have "list_all emitted_ok check_errors" by simp
  then have "\<forall>err\<in>set check_errors.
               msg_direction (err_message err) = direction (msg_diff (err_message err))
               \<and> number (msg_diff (err_message err)) \<noteq> 0
               \<and> msg_direction (err_message err) = ''too much''"
    by (auto simp: list_all_iff emitted_ok_def CHECK_PRECISION_def)
  with res show ?thesis
    by (auto simp: check_def direction_def amount_bool_def)
qed

theorem emitted_errors_say_too_much_witness:
  "direction (Amount (- 5) ''USD'') = ''too much''
   \<and> direction (Amount 0 ''USD'') = ''too little''
   \<and> (\<exists>new_entries err. check cash_entries Map.empty = Inr (new_entries, [err])
         \<and> msg_diff (err_message err) = Amount 10 ''USD''
         \<and> msg_direction (err_message err) = ''too much'')"
proof -
  from emitted_errors_say_too_much [of "Amount (- 5) ''USD''" cash_entries Map.empty]
  have neg: "direction (Amount (- 5) ''USD'') = ''too much''" by simp
  from emitted_errors_say_too_much [of "Amount 0 ''USD''" cash_entries Map.empty]
  have zero: "direction (Amount 0 ''USD'') = ''too little''" by simp
  from emitted_errors_say_too_much [of "Amount 0 ''USD''" cash_entries Map.empty]
  obtain new_entries check_errors where
    res: "check cash_entries Map.empty = Inr (new_entries, check_errors)"
    and all: "\<forall>err\<in>set check_errors. msg_direction (err_message err) = ''too much''"
    by blast
  from res have errs: "check_errors = [BalanceError (''ledger'', 3)
             (Message ''Assets:Cash'' (Amount 100 ''USD'') (Amount 90 ''USD'') (Amount 10 ''USD'') ''too much'')
             (Balance (''ledger'', 3) 3 ''Assets:Cash'' (Amount 90 ''USD'') None)]"
    by (simp add: check_cash)
  with all res neg zero show ?thesis by simp
qed

subsection \<open>The options of the pass\<close>

text \<open>
  C8, as the code has it: the second argument of \<open>check\<close> is not read. The tolerance is
  the constant \<open>CHECK_PRECISION\<close> of the module, 0.015, under every options map, and
  the result of the pass is the same for any two options maps.
\<close>

theorem check_ignores_options:
  "check entries options_map = check entries options_map' \<and> CHECK_PRECISION = 15 / 1000"
  by (simp add: check_def CHECK_PRECISION_def)

text \<open>
  C8, as it is stated, asks for an options map under which the result differs from
  the result under the default options. There is none.
\<close>

theorem check_options_counterexample:
  "\<not> (\<exists>entries options_map. check entries options_map \<noteq> check entries Map.empty)"
  by (simp add: check_def)

subsection \<open>Running the pass again\<close>

text \<open>
  C9. When the pass returns no error, the entries it returns are the entries it was
  given, and the pass run on them returns these entries and no error again.
\<close>

theorem rerun_without_errors:
  assumes "check entries options_map = Inr (new_entries, [])"
  shows "new_entries = entries \<and> check new_entries options_map = Inr (entries, [])"
proof -
  from assms have res: "check_loop (selection entries) [] [] entries = Inr (new_entries, [])"
    by (simp add: check_def)
  from check_loop_outcomes [OF res] obtain outs where
    outs: "list_all2 entry_outcome entries outs" "new_entries = map fst outs"
      "concat (map snd outs) = []"
    by auto
  from outcomes_no_errors [OF outs(1) outs(3)] outs(2) have "new_entries = entries" by simp
  with assms show ?thesis by simp
qed

theorem rerun_without_errors_witness:
  "check passing_entries Map.empty =
     Inr ([Transaction (''ledger'', 1) 1 [Posting ''Assets:Cash'' (Position (Lot ''USD'' None) 100)],
           Balance (''ledger'', 2) 2 ''Assets:Cash'' (Amount 100 ''USD'') None], [])
   \<and> [Transaction (''ledger'', 1) 1 [Posting ''Assets:Cash'' (Position (Lot ''USD'' None) 100)],
           Balance (''ledger'', 2) 2 ''Assets:Cash'' (Amount 100 ''USD'') None] = passing_entries
   \<and> check [Transaction (''ledger'', 1) 1 [Posting ''Assets:Cash'' (Position (Lot ''USD'' None) 100)],
           Balance (''ledger'', 2) 2 ''Assets:Cash'' (Amount 100 ''USD'') None] Map.empty
        = Inr (passing_entries, [])"
  using check_passing [of Map.empty] rerun_without_errors [OF check_passing [of Map.empty]]
  by blast

subsection \<open>The assertion of line 80\<close>

text \<open>
  C10. After the selection a node exists at every account that a balance assertion
  names; when the loop reaches a balance assertion, the tree it holds then has a node at
  the account of the assertion; and for every list of entries the pass returns its two
  lists: no run ends in the failed \<open>assert\<close> of line 80.
\<close>

theorem asserted_node_found:
  "(\<forall>account\<in>set (asserted_accounts entries). get (selection entries) account \<noteq> None)
   \<and> (\<forall>i loc d account expected diff.
         i < length entries \<and> entries ! i = Balance loc d account expected diff \<longrightarrow>
           get (tree_after (selection entries) (take i entries)) account \<noteq> None)
   \<and> (\<exists>new_entries check_errors. check entries options_map = Inr (new_entries, check_errors))
   \<and> (\<forall>failure. check entries options_map \<noteq> Inl failure)"
  using check_total [of entries options_map] get_selection_asserted [of _ entries]
    asserted_nth [of _ entries]
  by (auto simp: get_tree_after)

theorem asserted_node_found_witness:
  "asserted_accounts cash_entries = [''Assets:Cash'', ''Assets:Cash'']
   \<and> get (selection cash_entries) ''Assets:Cash'' \<noteq> None
   \<and> cash_entries ! 2 = Balance (''ledger'', 3) 3 ''Assets:Cash'' (Amount 90 ''USD'') None
   \<and> get (tree_after (selection cash_entries) (take 2 cash_entries)) ''Assets:Cash'' \<noteq> None
   \<and> (\<exists>new_entries check_errors. check cash_entries Map.empty = Inr (new_entries, check_errors))"
proof -
  have a: "asserted_accounts cash_entries = [''Assets:Cash'', ''Assets:Cash'']"
    by (simp add: asserted_accounts_def cash_entries_def)
  have l: "2 < length cash_entries"
    and e: "cash_entries ! 2 = Balance (''ledger'', 3) 3 ''Assets:Cash'' (Amount 90 ''USD'') None"
    by (simp_all add: cash_entries_def)
  note found = asserted_node_found [of cash_entries Map.empty]
  from found a have "get (selection cash_entries) ''Assets:Cash'' \<noteq> None"
    by simp
  moreover from found l e
  have "get (tree_after (selection cash_entries) (take 2 cash_entries)) ''Assets:Cash'' \<noteq> None"
    by blast
  moreover from found
  have "\<exists>new_entries check_errors. check cash_entries Map.empty = Inr (new_entries, check_errors)"
    by blast
  ultimately show ?thesis using a e by blast
qed

end
